theory Spec2Isabelle
  imports Complex_Main "HOL-Library.AList"
begin

section \<open>Python values and built-in string operations\<close>

text \<open>
  A Python \<open>str\<close> is modelled as a \<open>string\<close>: a list of characters, one element per
  code point, restricted to the code points below 256. Python integers are \<open>int\<close>.
\<close>

datatype error =
    ValueError string
  | TypeError
  | IndexError
  | UpstreamError string

text \<open>\<open>len(text)\<close> as a Python integer.\<close>

definition len :: "'a list \<Rightarrow> int" where
  "len xs = int (length xs)"

text \<open>
  \<open>xs[i:j]\<close>: a negative bound counts from the end, every bound is clamped into
  \<open>0..len(xs)\<close>, and a slice whose upper bound is below its lower bound is empty.
  Slicing never raises.
\<close>

definition slice :: "'a list \<Rightarrow> int \<Rightarrow> int \<Rightarrow> 'a list" where
  "slice xs i j =
     (let n = len xs;
          lo = (if i < 0 then max (i + n) 0 else min i n);
          hi = (if j < 0 then max (j + n) 0 else min j n)
      in take (nat (hi - lo)) (drop (nat lo) xs))"

text \<open>
  \<open>str.isspace\<close> on one character: for the code points below 256 the whitespace
  characters are 9 to 13, 28 to 32, 133 and 160.
\<close>

definition isspace :: "char \<Rightarrow> bool" where
  "isspace c =
     (let n = (of_char c :: nat)
      in (9 \<le> n \<and> n \<le> 13) \<or> (28 \<le> n \<and> n \<le> 32) \<or> n = 133 \<or> n = 160)"

text \<open>\<open>s.strip()\<close>: drop the leading and the trailing whitespace.\<close>

definition strip :: "string \<Rightarrow> string" where
  "strip s = rev (dropWhile isspace (rev (dropWhile isspace s)))"

text \<open>
  \<open>s.rfind(sub)\<close>: the highest index at which \<open>sub\<close> occurs in \<open>s\<close>, or \<open>-1\<close> when it
  does not occur. The search runs downward from the last position where \<open>sub\<close> still fits.
\<close>

fun rfind_from :: "string \<Rightarrow> string \<Rightarrow> nat \<Rightarrow> int" where
  "rfind_from s sub 0 = (if take (length sub) s = sub then 0 else - 1)"
| "rfind_from s sub (Suc i) =
     (if take (length sub) (drop (Suc i) s) = sub then int (Suc i)
      else rfind_from s sub i)"

definition rfind :: "string \<Rightarrow> string \<Rightarrow> int" where
  "rfind s sub =
     (if length sub \<le> length s then rfind_from s sub (length s - length sub) else - 1)"

text \<open>
  A value of type \<open>Any\<close>, as it arrives in a JSON body: a dictionary keeps its items in
  insertion order, as a Python \<open>dict\<close> does.
\<close>

datatype pyval =
    PNone
  | PBool bool
  | PInt int
  | PFloat real
  | PStr string
  | PList "pyval list"
  | PDict "(string \<times> pyval) list"

type_synonym dict = "(string \<times> pyval) list"

text \<open>
  \<open>{**a, **b}\<close>: the items of \<open>b\<close> are stored into \<open>a\<close> one after the other; storing
  under a key that is present replaces its value in place, a new key goes to the end.
\<close>

definition dict_merge :: "dict \<Rightarrow> dict \<Rightarrow> dict" where
  "dict_merge a b = fold (\<lambda>(k, v) d. AList.update k v d) b a"

text \<open>
  \<open>if v: d[k] = v\<close> for \<open>v: str | None\<close>: both \<open>None\<close> and the empty string are
  false.
\<close>

definition set_if_truthy :: "string \<Rightarrow> string option \<Rightarrow> dict \<Rightarrow> dict" where
  "set_if_truthy k v d =
     (case v of None \<Rightarrow> d | Some s \<Rightarrow> if s \<noteq> [] then AList.update k (PStr s) d else d)"


text \<open>
  What the service takes from the Python runtime: the hexadecimal SHA-256 digest of the
  encoded content, the reading of the clock as an ISO-8601 string, and \<open>str\<close> on a value
  that is not a string.
\<close>

record runtime =
  sha256_hexdigest :: "string \<Rightarrow> string"
  utc_now_isoformat :: string
  py_str :: "pyval \<Rightarrow> string"



section \<open>The fixed-size chunker\<close>

text \<open>
  The dataclass \<open>Chunk\<close> with its fields \<open>text\<close>, \<open>start\<close>, \<open>end\<close> and \<open>index\<close>; the
  field names carry the prefix \<open>c_\<close>, and the local variable \<open>end\<close> of the source is
  \<open>end_pos\<close> below.
\<close>

record Chunk =
  c_text :: string
  c_start :: int
  c_end :: int
  c_index :: int

record FixedSizeChunker =
  chunk_size :: int
  overlap :: int

text \<open>Sentence separators in order of preference.\<close>

definition SENTENCE_SEPARATORS :: "string list" where
  "SENTENCE_SEPARATORS =
     [''. '', [CHR ''.'', CHR 0x0A], [CHR 0x0A, CHR 0x0A], [CHR 0x0A], '' '']"

text \<open>\<open>FixedSizeChunker.__init__\<close>: the three checks, in the order of the source.\<close>

definition FixedSizeChunker_init :: "int \<Rightarrow> int \<Rightarrow> error + FixedSizeChunker" where
  "FixedSizeChunker_init cs ov =
     (if cs \<le> 0 then Inl (ValueError ''chunk_size must be positive'')
      else if ov < 0 then Inl (ValueError ''overlap must be non-negative'')
      else if ov \<ge> cs then Inl (ValueError ''overlap must be less than chunk_size'')
      else Inr \<lparr>chunk_size = cs, overlap = ov\<rparr>)"

text \<open>
  \<open>_find_break_point\<close>: the \<open>for\<close> loop over the separators, leaving at the first
  separator whose last occurrence lies beyond half the chunk size.
\<close>

fun find_break_point_loop :: "string \<Rightarrow> int \<Rightarrow> int \<Rightarrow> int \<Rightarrow> string list \<Rightarrow> int" where
  "find_break_point_loop search_region min_chunk_size start end_pos [] = end_pos"
| "find_break_point_loop search_region min_chunk_size start end_pos (sep # seps) =
     (let last_sep = rfind search_region sep
      in if last_sep > min_chunk_size then start + last_sep + len sep
         else find_break_point_loop search_region min_chunk_size start end_pos seps)"

definition find_break_point :: "FixedSizeChunker \<Rightarrow> string \<Rightarrow> int \<Rightarrow> int \<Rightarrow> int" where
  "find_break_point self text start end_pos =
     (let search_region = slice text start end_pos;
          min_chunk_size = chunk_size self div 2
      in find_break_point_loop search_region min_chunk_size start end_pos SENTENCE_SEPARATORS)"

text \<open>
  One pass through the body of the \<open>while\<close> loop of \<open>chunk\<close>, entered with
  \<open>start < len(text)\<close>: either the loop is left by \<open>break\<close> with the chunks collected
  so far, or it goes on with the new chunks, cursor and index.
\<close>

datatype flow = Continue "Chunk list" int int | Break "Chunk list"

definition loop_body :: "FixedSizeChunker \<Rightarrow> string \<Rightarrow> Chunk list \<Rightarrow> int \<Rightarrow> int \<Rightarrow> flow" where
  "loop_body self text chunks start index =
     (let end0 = min (start + chunk_size self) (len text);
          end_pos = (if end0 < len text then find_break_point self text start end0 else end0);
          chunk_text = strip (slice text start end_pos);
          chunks' = (if chunk_text \<noteq> []
                     then chunks @ [\<lparr>c_text = chunk_text, c_start = start,
                                      c_end = end_pos, c_index = index\<rparr>]
                     else chunks);
          index' = (if chunk_text \<noteq> [] then index + 1 else index)
      in if end_pos \<ge> len text then Break chunks'
         else
           let new_start = end_pos - overlap self;
               new_start' = (if new_start \<le> start then end_pos else new_start)
           in Continue chunks' new_start' index')"

text \<open>
  The \<open>while\<close> loop. Nothing in the source bounds the number of passes, so the loop is a
  partial function: \<open>None\<close> stands for a run that never returns.
\<close>

partial_function (option) chunk_loop ::
  "FixedSizeChunker \<Rightarrow> string \<Rightarrow> Chunk list \<Rightarrow> int \<Rightarrow> int \<Rightarrow> Chunk list option" where
  "chunk_loop self text chunks start index =
     (if start < len text then
        (case loop_body self text chunks start index of
           Break chunks' \<Rightarrow> Some chunks'
         | Continue chunks' start' index' \<Rightarrow> chunk_loop self text chunks' start' index')
      else Some chunks)"

declare chunk_loop.simps [code]

text \<open>\<open>FixedSizeChunker.chunk\<close>.\<close>

definition chunk :: "FixedSizeChunker \<Rightarrow> string \<Rightarrow> Chunk list option" where
  "chunk self text =
     (if text = [] \<or> strip text = [] then Some []
      else chunk_loop self text [] 0 0)"

section \<open>The memory service\<close>

record AddMemoryResponse =
  memory_ids :: "string list"
  chunks_created :: int

text \<open>
  One result of \<open>VectorStore.search\<close>, with the keys \<open>id\<close>, \<open>score\<close>, \<open>content\<close> and
  \<open>metadata\<close>, and the request and response models of a search. The fields of a store
  result carry the prefix \<open>r_\<close>, those of the request the prefix \<open>q_\<close>. Vectors and
  scores are only passed on, never computed with; they are modelled as reals.
\<close>

record StoreResult =
  r_id :: string
  r_score :: real
  r_content :: string
  r_metadata :: dict

record MemorySearchRequest =
  q_query :: string
  q_user_id :: "string option"
  q_session_id :: "string option"
  q_agent_name :: "string option"
  q_top_k :: int
  q_score_threshold :: "real option"
  q_filters :: dict

record MemorySearchResult =
  content :: string
  metadata :: dict
  score :: real
  memory_id :: string

record MemorySearchResponse =
  results :: "MemorySearchResult list"
  query :: string

text \<open>
  The chunker, the embedding provider and the vector store are injected into the service.
  Every call the service makes to one of them is recorded, with its arguments, in a trace;
  what a collaborator answers may depend on its arguments and on the calls made before
  (the trace so far), and it may fail.
\<close>

datatype call =
    Chunker_chunk string
  | Embeddings_embed "string list"
  | Store_add "real list list" "string list" "dict list"
  | Store_search "real list" int "dict option" "real option"

record MemoryService =
  chunker_chunk :: "call list \<Rightarrow> string \<Rightarrow> error + Chunk list"
  embeddings_embed :: "call list \<Rightarrow> string list \<Rightarrow> error + real list list"
  store_add ::
    "call list \<Rightarrow> real list list \<Rightarrow> string list \<Rightarrow> dict list \<Rightarrow> error + string list"
  store_search ::
    "call list \<Rightarrow> real list \<Rightarrow> int \<Rightarrow> dict option \<Rightarrow> real option \<Rightarrow> error + StoreResult list"

text \<open>
  \<open>MemoryService.add_memory\<close>. The result is the response, or the error a collaborator
  raised, together with the trace extended by the calls made.
\<close>

definition add_memory ::
  "runtime \<Rightarrow> MemoryService \<Rightarrow> string \<Rightarrow> dict option \<Rightarrow> string option \<Rightarrow> string option \<Rightarrow>
   string option \<Rightarrow> call list \<Rightarrow> (error + AddMemoryResponse) \<times> call list" where
  "add_memory rt self content0 metadata0 user_id session_id agent_name tr =
     (let metadata1 = (case metadata0 of None \<Rightarrow> [] | Some m \<Rightarrow> m);
          content_hash = take 16 (sha256_hexdigest rt content0);
          base0 = [(''timestamp'', PStr (utc_now_isoformat rt)),
                   (''content_hash'', PStr content_hash)];
          base1 = set_if_truthy ''user_id'' user_id base0;
          base2 = set_if_truthy ''session_id'' session_id base1;
          base_metadata = set_if_truthy ''agent_name'' agent_name base2;
          tr1 = tr @ [Chunker_chunk content0]
      in case chunker_chunk self tr content0 of
           Inl e \<Rightarrow> (Inl e, tr1)
         | Inr chunks \<Rightarrow>
             if chunks = [] then (Inr \<lparr>memory_ids = [], chunks_created = 0\<rparr>, tr1)
             else
               let chunk_texts = map c_text chunks;
                   tr2 = tr1 @ [Embeddings_embed chunk_texts]
               in case embeddings_embed self tr1 chunk_texts of
                    Inl e \<Rightarrow> (Inl e, tr2)
                  | Inr vectors \<Rightarrow>
                      let chunk_metadata =
                            map (\<lambda>c. dict_merge (dict_merge base_metadata metadata1)
                                       [(''chunk_index'', PInt (c_index c)),
                                        (''chunk_start'', PInt (c_start c)),
                                        (''chunk_end'', PInt (c_end c)),
                                        (''total_chunks'', PInt (len chunks))]) chunks;
                          tr3 = tr2 @ [Store_add vectors chunk_texts chunk_metadata]
                      in case store_add self tr2 vectors chunk_texts chunk_metadata of
                           Inl e \<Rightarrow> (Inl e, tr3)
                         | Inr ids \<Rightarrow>
                             (Inr \<lparr>memory_ids = ids, chunks_created = len chunks\<rparr>, tr3))"

text \<open>
  \<open>MemoryService.search_memory\<close>. \<open>query_vectors[0]\<close> raises \<open>IndexError\<close> on an empty
  list.
\<close>

definition search_memory ::
  "MemoryService \<Rightarrow> MemorySearchRequest \<Rightarrow> call list \<Rightarrow>
   (error + MemorySearchResponse) \<times> call list" where
  "search_memory self request tr =
     (let tr1 = tr @ [Embeddings_embed [q_query request]]
      in case embeddings_embed self tr [q_query request] of
           Inl e \<Rightarrow> (Inl e, tr1)
         | Inr query_vectors \<Rightarrow>
             (case query_vectors of
                [] \<Rightarrow> (Inl IndexError, tr1)
              | query_vector # _ \<Rightarrow>
                  let filters0 = q_filters request;
                      filters1 = set_if_truthy ''user_id'' (q_user_id request) filters0;
                      filters2 = set_if_truthy ''session_id'' (q_session_id request) filters1;
                      filters3 = set_if_truthy ''agent_name'' (q_agent_name request) filters2;
                      arg = (if filters3 \<noteq> [] then Some filters3 else None);
                      tr2 = tr1 @ [Store_search query_vector (q_top_k request) arg
                                     (q_score_threshold request)]
                  in case store_search self tr1 query_vector (q_top_k request) arg
                            (q_score_threshold request) of
                       Inl e \<Rightarrow> (Inl e, tr2)
                     | Inr rs \<Rightarrow>
                         (Inr \<lparr>results = map (\<lambda>r. \<lparr>content = r_content r,
                                                    metadata = r_metadata r,
                                                    score = r_score r,
                                                    memory_id = r_id r\<rparr>) rs,
                               query = q_query request\<rparr>, tr2)))"





section \<open>Notions used in the statements\<close>

text \<open>The configurations that \<open>FixedSizeChunker_init\<close> accepts.\<close>

definition valid_config :: "FixedSizeChunker \<Rightarrow> bool" where
  "valid_config self =
     (chunk_size self > 0 \<and> 0 \<le> overlap self \<and> overlap self < chunk_size self)"

text \<open>
  \<open>sub\<close> occurs in \<open>s\<close> at offset \<open>i\<close>; and \<open>i\<close> is the offset of the last occurrence of
  \<open>sub\<close> in \<open>s\<close>.
\<close>

definition occurs_at :: "string \<Rightarrow> string \<Rightarrow> nat \<Rightarrow> bool" where
  "occurs_at s sub i = (i + length sub \<le> length s \<and> take (length sub) (drop i s) = sub)"

definition is_last_occurrence :: "string \<Rightarrow> string \<Rightarrow> nat \<Rightarrow> bool" where
  "is_last_occurrence s sub i =
     (occurs_at s sub i \<and> (\<forall>j \<in> {0..length s}. occurs_at s sub j \<longrightarrow> j \<le> i))"

text \<open>
  The three values one pass of the loop body computes from the cursor: the end of the
  window, the chunk list after the pass, and the next cursor.
\<close>

definition window_end :: "FixedSizeChunker \<Rightarrow> string \<Rightarrow> int \<Rightarrow> int" where
  "window_end self text start =
     (let end0 = min (start + chunk_size self) (len text)
      in if end0 < len text then find_break_point self text start end0 else end0)"

definition next_start :: "FixedSizeChunker \<Rightarrow> string \<Rightarrow> int \<Rightarrow> int" where
  "next_start self text start =
     (let end_pos = window_end self text start; new_start = end_pos - overlap self
      in if new_start \<le> start then end_pos else new_start)"

definition emit :: "string \<Rightarrow> Chunk list \<Rightarrow> int \<Rightarrow> int \<Rightarrow> int \<Rightarrow> Chunk list" where
  "emit text chunks start end_pos index =
     (if strip (slice text start end_pos) \<noteq> []
      then chunks @ [\<lparr>c_text = strip (slice text start end_pos), c_start = start,
                      c_end = end_pos, c_index = index\<rparr>]
      else chunks)"

text \<open>What holds of every emitted chunk, of the emitted list, and at the head of the loop.\<close>

definition chunk_ok :: "FixedSizeChunker \<Rightarrow> string \<Rightarrow> Chunk \<Rightarrow> bool" where
  "chunk_ok self text c =
     (0 \<le> c_start c \<and> c_start c < c_end c \<and> c_end c \<le> len text \<and>
      c_end c = window_end self text (c_start c) \<and>
      c_text c = strip (slice text (c_start c) (c_end c)) \<and>
      c_text c \<noteq> [] \<and> len (c_text c) \<le> c_end c - c_start c \<and>
      len (c_text c) \<le> chunk_size self)"

definition chunks_ok :: "FixedSizeChunker \<Rightarrow> string \<Rightarrow> Chunk list \<Rightarrow> bool" where
  "chunks_ok self text chunks =
     ((\<forall>c \<in> set chunks. chunk_ok self text c) \<and>
      sorted_wrt (<) (map c_start chunks) \<and>
      map c_index chunks = map int [0..<length chunks])"

definition loop_inv :: "FixedSizeChunker \<Rightarrow> string \<Rightarrow> Chunk list \<Rightarrow> int \<Rightarrow> int \<Rightarrow> bool" where
  "loop_inv self text chunks start index =
     (0 \<le> start \<and> index = len chunks \<and> chunks_ok self text chunks \<and>
      (\<forall>c \<in> set chunks. c_start c < start))"

text \<open>
  An identity entry of a metadata or filter map: present exactly when the identifier is
  neither \<open>None\<close> nor empty.
\<close>

definition identity_entry :: "string \<Rightarrow> string option \<Rightarrow> (string \<rightharpoonup> pyval)" where
  "identity_entry k v =
     (case v of None \<Rightarrow> Map.empty | Some s \<Rightarrow> if s \<noteq> [] then [k \<mapsto> PStr s] else Map.empty)"

text \<open>
  The metadata of a stored chunk as the specification words it: the base metadata of an
  \<open>add_memory\<close> call and the four fields of one chunk out of \<open>n\<close>.
\<close>

definition spec_base_metadata ::
  "runtime \<Rightarrow> string \<Rightarrow> string option \<Rightarrow> string option \<Rightarrow> string option \<Rightarrow> (string \<rightharpoonup> pyval)" where
  "spec_base_metadata rt content0 user_id session_id agent_name =
     [''timestamp'' \<mapsto> PStr (utc_now_isoformat rt),
      ''content_hash'' \<mapsto> PStr (take 16 (sha256_hexdigest rt content0))]
     ++ identity_entry ''user_id'' user_id
     ++ identity_entry ''session_id'' session_id
     ++ identity_entry ''agent_name'' agent_name"

definition spec_chunk_fields :: "Chunk \<Rightarrow> int \<Rightarrow> (string \<rightharpoonup> pyval)" where
  "spec_chunk_fields c n =
     [''chunk_index'' \<mapsto> PInt (c_index c), ''chunk_start'' \<mapsto> PInt (c_start c),
      ''chunk_end'' \<mapsto> PInt (c_end c), ''total_chunks'' \<mapsto> PInt n]"

text \<open>The caller's filters overridden by the identity entries of a search request.\<close>

definition merged_filters :: "MemorySearchRequest \<Rightarrow> (string \<rightharpoonup> pyval)" where
  "merged_filters request =
     map_of (q_filters request)
     ++ identity_entry ''user_id'' (q_user_id request)
     ++ identity_entry ''session_id'' (q_session_id request)
     ++ identity_entry ''agent_name'' (q_agent_name request)"

text \<open>
  The filters of a search as the specification words them: an identity key is added
  whenever the identifier is not null.
\<close>

definition spec_search_filters :: "MemorySearchRequest \<Rightarrow> dict option" where
  "spec_search_filters request =
     (let add_non_null = (\<lambda>k v d. case v of None \<Rightarrow> d | Some s \<Rightarrow> AList.update k (PStr s) d);
          merged = add_non_null ''agent_name'' (q_agent_name request)
                     (add_non_null ''session_id'' (q_session_id request)
                        (add_non_null ''user_id'' (q_user_id request) (q_filters request)))
      in if merged \<noteq> [] then Some merged else None)"

section \<open>Example inputs\<close>

definition example_chunker :: FixedSizeChunker where
  "example_chunker = \<lparr>chunk_size = 10, overlap = 3\<rparr>"

definition whitespace_example :: string where
  "whitespace_example = ''   '' @ [CHR 0x0A, CHR 0x09] @ '' ''"

definition example_runtime :: runtime where
  "example_runtime =
     \<lparr>sha256_hexdigest = (\<lambda>_. ''0123456789abcdef0123456789abcdef''),
      utc_now_isoformat = ''2025-01-01T00:00:00+00:00'',
      py_str = (\<lambda>_. ''?'')\<rparr>"

text \<open>
  A service over the fixed-size chunker with the default configuration, an embedding
  provider that gives each text a vector of one number, and a store that names each
  record after its document and finds nothing.
\<close>

definition example_service :: MemoryService where
  "example_service =
     \<lparr>chunker_chunk = (\<lambda>_ t. case chunk \<lparr>chunk_size = 1000, overlap = 200\<rparr> t of
                                Some r \<Rightarrow> Inr r | None \<Rightarrow> Inl (UpstreamError ''chunker'')),
      embeddings_embed = (\<lambda>_ ts. Inr (map (\<lambda>t. [real (length t)]) ts)),
      store_add = (\<lambda>_ vs ds ms. Inr (map (\<lambda>d. ''id-'' @ d) ds)),
      store_search = (\<lambda>_ v k f th. Inr [])\<rparr>"



definition example_request :: MemorySearchRequest where
  "example_request =
     \<lparr>q_query = ''q'', q_user_id = Some [], q_session_id = None, q_agent_name = None,
      q_top_k = 10, q_score_threshold = None, q_filters = []\<rparr>"

text \<open>
  A service over the small example chunker, its chunks on a short text, and caller
  metadata with a key that collides with a chunk field.
\<close>

definition example_chunked_content :: string where
  "example_chunked_content = ''aaaaaa. bbbbbbbb''"

definition small_service :: MemoryService where
  "small_service =
     \<lparr>chunker_chunk = (\<lambda>_ t. case chunk example_chunker t of
                                Some r \<Rightarrow> Inr r | None \<Rightarrow> Inl (UpstreamError ''chunker'')),
      embeddings_embed = (\<lambda>_ ts. Inr (map (\<lambda>t. [real (length t)]) ts)),
      store_add = (\<lambda>_ vs ds ms. Inr (map (\<lambda>d. ''id-'' @ d) ds)),
      store_search = (\<lambda>_ v k f th. Inr [])\<rparr>"

definition example_chunks :: "Chunk list" where
  "example_chunks =
     [\<lparr>c_text = ''aaaaaa.'', c_start = 0, c_end = 8, c_index = 0\<rparr>,
      \<lparr>c_text = ''a. bbbbbbb'', c_start = 5, c_end = 15, c_index = 1\<rparr>,
      \<lparr>c_text = ''bbbb'', c_start = 12, c_end = 16, c_index = 2\<rparr>]"

definition example_metadata :: dict where
  "example_metadata = [(''source'', PStr ''doc''), (''chunk_index'', PInt 99)]"

text \<open>
  A service whose store finds two records, and a request with a user, an empty session
  identifier and filters of its own under both keys.
\<close>

definition search_service :: MemoryService where
  "search_service =
     \<lparr>chunker_chunk = (\<lambda>_ t. Inr []),
      embeddings_embed = (\<lambda>_ ts. Inr (map (\<lambda>t. [real (length t)]) ts)),
      store_add = (\<lambda>_ vs ds ms. Inr []),
      store_search = (\<lambda>_ v k f th.
         Inr [\<lparr>r_id = ''m2'', r_score = 1, r_content = ''second'', r_metadata = []\<rparr>,
              \<lparr>r_id = ''m1'', r_score = 0, r_content = ''first'',
                r_metadata = [(''user_id'', PStr ''u1'')]\<rparr>])\<rparr>"

definition identified_request :: MemorySearchRequest where
  "identified_request =
     \<lparr>q_query = ''q'', q_user_id = Some ''u1'', q_session_id = Some [], q_agent_name = None,
      q_top_k = 10, q_score_threshold = None,
      q_filters = [(''user_id'', PStr ''other''), (''session_id'', PStr ''s0'')]\<rparr>"

section \<open>Properties of the built-in operations\<close>

lemma rfind_from_range:
  "rfind_from s sub i = - 1 \<or>
   (0 \<le> rfind_from s sub i \<and> rfind_from s sub i \<le> int i \<and>
    take (length sub) (drop (nat (rfind_from s sub i)) s) = sub)"
proof (induction i)
  case 0
  show ?case by simp
next
  case (Suc i)
  have n: "nat (1 + int i) = Suc i" by simp
  show ?case
  proof (cases "take (length sub) (drop (Suc i) s) = sub")
    case True
    then show ?thesis by (simp add: n)
  next
    case False
    with Suc show ?thesis by auto
  qed
qed

lemma rfind_from_upper:
  "j \<le> i \<Longrightarrow> take (length sub) (drop j s) = sub \<Longrightarrow> int j \<le> rfind_from s sub i"
proof (induction i)
  case 0
  then show ?case by simp
next
  case (Suc i)
  show ?case
  proof (cases "j = Suc i")
    case True
    with Suc.prems show ?thesis by simp
  next
    case False
    with Suc.prems have "j \<le> i" by simp
    from Suc.IH [OF this Suc.prems(2)] have "int j \<le> rfind_from s sub i" .
    moreover have "rfind_from s sub (Suc i) = int (Suc i) \<or> rfind_from s sub (Suc i) = rfind_from s sub i"
      by simp
    moreover have "int j \<le> int (Suc i)" using Suc.prems by simp
    ultimately show ?thesis by presburger
  qed
qed

lemma rfind_ge: "- 1 \<le> rfind s sub"
  using rfind_from_range [of s sub "length s - length sub"]
  by (auto simp: rfind_def)

lemma rfind_occurs: "0 \<le> rfind s sub \<Longrightarrow> occurs_at s sub (nat (rfind s sub))"
  using rfind_from_range [of s sub "length s - length sub"]
  by (auto simp: rfind_def occurs_at_def split: if_splits)

lemma rfind_greatest: "occurs_at s sub j \<Longrightarrow> int j \<le> rfind s sub"
  using rfind_from_upper [of j "length s - length sub" sub s]
  by (auto simp: rfind_def occurs_at_def)

lemma rfind_fits: "0 \<le> rfind s sub \<Longrightarrow> rfind s sub + len sub \<le> len s"
  using rfind_occurs [of s sub] by (auto simp: occurs_at_def len_def)

lemma occurs_at_bound: "occurs_at s sub j \<Longrightarrow> j \<le> length s"
  by (simp add: occurs_at_def)

lemma is_last_occurrence_rfind:
  "is_last_occurrence s sub off \<longleftrightarrow> rfind s sub = int off"
proof
  assume h: "is_last_occurrence s sub off"
  then have occ: "occurs_at s sub off" by (simp add: is_last_occurrence_def)
  from rfind_greatest [OF occ] have ge: "int off \<le> rfind s sub" .
  then have "0 \<le> rfind s sub" by simp
  from rfind_occurs [OF this] have o2: "occurs_at s sub (nat (rfind s sub))" .
  from occurs_at_bound [OF o2] h o2 have "nat (rfind s sub) \<le> off"
    by (simp add: is_last_occurrence_def)
  with ge show "rfind s sub = int off" by simp
next
  assume e: "rfind s sub = int off"
  then have "0 \<le> rfind s sub" by simp
  from rfind_occurs [OF this] e have occ: "occurs_at s sub off" by simp
  have "\<And>j. occurs_at s sub j \<Longrightarrow> j \<le> off"
    using rfind_greatest [of s sub] e by fastforce
  with occ show "is_last_occurrence s sub off" by (simp add: is_last_occurrence_def)
qed

lemma length_slice:
  "0 \<le> i \<Longrightarrow> i \<le> j \<Longrightarrow> j \<le> len xs \<Longrightarrow> len (slice xs i j) = j - i"
  by (auto simp: slice_def len_def Let_def min_def max_def)

lemma length_strip_le: "length (strip s) \<le> length s"
proof -
  have "length (strip s) \<le> length (dropWhile isspace s)"
    unfolding strip_def using length_dropWhile_le [of isspace "rev (dropWhile isspace s)"] by simp
  also have "\<dots> \<le> length s" by (rule length_dropWhile_le)
  finally show ?thesis .
qed

lemma strip_all_space: "\<forall>c \<in> set s. isspace c \<Longrightarrow> strip s = []"
proof -
  assume "\<forall>c \<in> set s. isspace c"
  then have d: "dropWhile isspace s = []" by simp
  show ?thesis unfolding strip_def d by simp
qed

section \<open>The break point and the loop\<close>

lemma find_break_point_loop_result:
  "find_break_point_loop w m s e seps = e \<or>
   (\<exists>sep \<in> set seps. m < rfind w sep \<and>
      find_break_point_loop w m s e seps = s + rfind w sep + len sep)"
  by (induction seps) (auto simp: Let_def)

lemma find_break_point_loop_first:
  assumes "k < length seps" "m < rfind w (seps ! k)"
    and "\<forall>k' < k. \<not> m < rfind w (seps ! k')"
  shows "find_break_point_loop w m s e seps = s + rfind w (seps ! k) + len (seps ! k)"
  using assms
proof (induction seps arbitrary: k)
  case Nil
  then show ?case by simp
next
  case (Cons sep seps)
  show ?case
  proof (cases k)
    case 0
    with Cons.prems show ?thesis by (simp add: Let_def)
  next
    case (Suc k0)
    from Cons.prems(3) Suc have first: "\<not> m < rfind w sep" by auto
    from Cons.prems(3) Suc have rest: "\<forall>k' < k0. \<not> m < rfind w (seps ! k')" by auto
    from Cons.prems(1,2) Suc have "k0 < length seps" "m < rfind w (seps ! k0)" by auto
    from Cons.IH [OF this rest] first Suc show ?thesis by (simp add: Let_def)
  qed
qed

lemma find_break_point_loop_none:
  "\<forall>sep \<in> set seps. \<not> m < rfind w sep \<Longrightarrow> find_break_point_loop w m s e seps = e"
  by (induction seps) (auto simp: Let_def)

lemma find_break_point_loop_gt:
  "0 \<le> m \<Longrightarrow> s < e \<Longrightarrow> s < find_break_point_loop w m s e seps"
  using find_break_point_loop_result [of w m s e seps] by (auto simp: len_def)

lemma find_break_point_loop_le:
  "0 \<le> m \<Longrightarrow> len w = e - s \<Longrightarrow> find_break_point_loop w m s e seps \<le> e"
proof -
  assume m: "0 \<le> m" and w: "len w = e - s"
  from find_break_point_loop_result [of w m s e seps]
  show ?thesis
  proof
    assume "find_break_point_loop w m s e seps = e"
    then show ?thesis by simp
  next
    assume "\<exists>sep \<in> set seps. m < rfind w sep \<and>
      find_break_point_loop w m s e seps = s + rfind w sep + len sep"
    then obtain sep where a: "m < rfind w sep"
      and b: "find_break_point_loop w m s e seps = s + rfind w sep + len sep" by blast
    from a m have "0 \<le> rfind w sep" by simp
    from rfind_fits [OF this] w b show ?thesis by simp
  qed
qed

lemma loop_body_unfold:
  "loop_body self text chunks start index =
     (if window_end self text start \<ge> len text
      then Break (emit text chunks start (window_end self text start) index)
      else Continue (emit text chunks start (window_end self text start) index)
             (next_start self text start)
             (if strip (slice text start (window_end self text start)) \<noteq> [] then index + 1 else index))"
  by (simp add: loop_body_def window_end_def next_start_def emit_def Let_def)

lemma window_end_gt:
  assumes "0 < chunk_size self" "start < len text"
  shows "start < window_end self text start"
proof -
  from assms have "0 \<le> chunk_size self div 2" by simp
  moreover from assms have "start < min (start + chunk_size self) (len text)" by simp
  ultimately show ?thesis
    using find_break_point_loop_gt
    by (simp add: window_end_def find_break_point_def Let_def)
qed

lemma window_end_le:
  assumes "0 < chunk_size self" "0 \<le> start" "start < len text"
  shows "window_end self text start \<le> min (start + chunk_size self) (len text)"
proof -
  let ?e = "min (start + chunk_size self) (len text)"
  from assms have m: "0 \<le> chunk_size self div 2" by simp
  from assms have "start \<le> ?e" "?e \<le> len text" by simp_all
  from length_slice [OF assms(2) this] have "len (slice text start ?e) = ?e - start" .
  from find_break_point_loop_le [OF m this]
  have "find_break_point self text start ?e \<le> ?e"
    by (simp only: find_break_point_def Let_def)
  then show ?thesis unfolding window_end_def Let_def by (cases "?e < len text") simp_all
qed

lemma next_start_gt:
  assumes "0 < chunk_size self" "start < len text"
  shows "start < next_start self text start"
  using window_end_gt [OF assms] by (simp add: next_start_def Let_def)

lemma chunk_loop_rule:
  assumes cs: "0 < chunk_size self"
    and inv: "I chunks start index"
    and step: "\<And>cs s i cs' s' i'. I cs s i \<Longrightarrow> s < len text \<Longrightarrow>
                 loop_body self text cs s i = Continue cs' s' i' \<Longrightarrow> I cs' s' i'"
    and brk: "\<And>cs s i cs'. I cs s i \<Longrightarrow> s < len text \<Longrightarrow>
                 loop_body self text cs s i = Break cs' \<Longrightarrow> Q cs'"
    and exit: "\<And>cs s i. I cs s i \<Longrightarrow> \<not> s < len text \<Longrightarrow> Q cs"
  shows "\<exists>r. chunk_loop self text chunks start index = Some r \<and> Q r"
  using inv
proof (induction "nat (len text - start)" arbitrary: chunks start index rule: less_induct)
  case less
  show ?case
  proof (cases "start < len text")
    case False
    with exit [OF less.prems] show ?thesis by (simp add: chunk_loop.simps)
  next
    case True
    show ?thesis
    proof (cases "loop_body self text chunks start index")
      case (Break cs')
      from brk [OF less.prems True Break] True Break show ?thesis
        by (simp add: chunk_loop.simps)
    next
      case (Continue cs' s' i')
      then have "s' = next_start self text start"
        by (simp add: loop_body_unfold split: if_splits)
      with next_start_gt [OF cs True] have "start < s'" by simp
      with True have "nat (len text - s') < nat (len text - start)" by simp
      from less.hyps [OF this step [OF less.prems True Continue]]
      obtain r where "chunk_loop self text cs' s' i' = Some r" "Q r" by blast
      with True Continue show ?thesis
        by (subst chunk_loop.simps) simp
    qed
  qed
qed

lemma emit_ok:
  assumes cs: "0 < chunk_size self" and inv: "loop_inv self text chunks start index"
    and lt: "start < len text"
  shows "chunks_ok self text (emit text chunks start (window_end self text start) index)"
    and "\<forall>c \<in> set (emit text chunks start (window_end self text start) index). c_start c \<le> start"
    and "len (emit text chunks start (window_end self text start) index) =
           (if strip (slice text start (window_end self text start)) \<noteq> [] then index + 1 else index)"
proof -
  let ?e = "window_end self text start"
  let ?t = "strip (slice text start ?e)"
  from inv have s0: "0 \<le> start" and idx: "index = len chunks"
    and ok: "chunks_ok self text chunks" and below: "\<forall>c \<in> set chunks. c_start c < start"
    by (simp_all add: loop_inv_def)
  from window_end_gt [OF cs lt] have gt: "start < ?e" .
  from window_end_le [OF cs s0 lt] have le: "?e \<le> start + chunk_size self" "?e \<le> len text"
    by simp_all
  from gt le(2) s0 have "len (slice text start ?e) = ?e - start"
    by (intro length_slice) simp_all
  with length_strip_le [of "slice text start ?e"]
  have tw: "len ?t \<le> ?e - start" by (simp add: len_def)
  with le(1) have tl: "len ?t \<le> chunk_size self" by simp
  show "chunks_ok self text (emit text chunks start ?e index)"
  proof (cases "?t = []")
    case True
    with ok show ?thesis by (simp add: emit_def)
  next
    case False
    let ?c = "\<lparr>c_text = ?t, c_start = start, c_end = ?e, c_index = index\<rparr>"
    have "chunk_ok self text ?c"
      using False s0 gt le(2) tw tl by (simp add: chunk_ok_def)
    moreover have "sorted_wrt (<) (map c_start (chunks @ [?c]))"
      using ok below by (simp add: chunks_ok_def sorted_wrt_append)
    moreover have "map c_index (chunks @ [?c]) = map int [0..<length (chunks @ [?c])]"
      using ok idx by (simp add: chunks_ok_def len_def)
    ultimately show ?thesis using ok False by (simp add: emit_def chunks_ok_def)
  qed
  show "\<forall>c \<in> set (emit text chunks start ?e index). c_start c \<le> start"
    using below by (auto simp: emit_def)
  show "len (emit text chunks start ?e index) = (if ?t \<noteq> [] then index + 1 else index)"
    using idx by (simp add: emit_def len_def)
qed

lemma loop_inv_step:
  assumes cs: "0 < chunk_size self" and inv: "loop_inv self text chunks start index"
    and lt: "start < len text"
    and body: "loop_body self text chunks start index = Continue chunks' start' index'"
  shows "loop_inv self text chunks' start' index'"
proof -
  from body have c': "chunks' = emit text chunks start (window_end self text start) index"
    and s': "start' = next_start self text start"
    and i': "index' = (if strip (slice text start (window_end self text start)) \<noteq> []
                      then index + 1 else index)"
    by (simp_all add: loop_body_unfold split: if_splits)
  from next_start_gt [OF cs lt] s' have gt: "start < start'" by simp
  from inv have "0 \<le> start" by (simp add: loop_inv_def)
  with gt have "0 \<le> start'" by simp
  moreover from emit_ok(3) [OF cs inv lt] c' i' have "index' = len chunks'" by simp
  moreover from emit_ok(1) [OF cs inv lt] c' have "chunks_ok self text chunks'" by simp
  moreover from emit_ok(2) [OF cs inv lt] c' gt have "\<forall>c \<in> set chunks'. c_start c < start'"
    by fastforce
  ultimately show ?thesis by (simp add: loop_inv_def)
qed

lemma loop_inv_break:
  assumes cs: "0 < chunk_size self" and inv: "loop_inv self text chunks start index"
    and lt: "start < len text"
    and body: "loop_body self text chunks start index = Break chunks'"
  shows "chunks_ok self text chunks'"
proof -
  from body have "chunks' = emit text chunks start (window_end self text start) index"
    by (simp add: loop_body_unfold split: if_splits)
  with emit_ok(1) [OF cs inv lt] show ?thesis by simp
qed

lemma chunk_loop_ok:
  assumes cs: "0 < chunk_size self"
  shows "\<exists>r. chunk_loop self text [] 0 0 = Some r \<and> chunks_ok self text r"
proof (rule chunk_loop_rule [where I = "loop_inv self text", OF cs])
  show "loop_inv self text [] 0 0"
    by (simp add: loop_inv_def chunks_ok_def len_def)
next
  fix cs0 s i cs' s' i'
  assume "loop_inv self text cs0 s i" "s < len text"
    "loop_body self text cs0 s i = Continue cs' s' i'"
  then show "loop_inv self text cs' s' i'" by (rule loop_inv_step [OF cs])
next
  fix cs0 s i cs'
  assume "loop_inv self text cs0 s i" "s < len text" "loop_body self text cs0 s i = Break cs'"
  then show "chunks_ok self text cs'" by (rule loop_inv_break [OF cs])
next
  fix cs0 s i
  assume "loop_inv self text cs0 s i"
  then show "chunks_ok self text cs0" by (simp add: loop_inv_def)
qed

lemma chunk_ok_result:
  assumes "valid_config self"
  shows "\<exists>r. chunk self text = Some r \<and> chunks_ok self text r"
proof (cases "text = [] \<or> strip text = []")
  case True
  then show ?thesis by (auto simp: chunk_def chunks_ok_def)
next
  case False
  from assms have "0 < chunk_size self" by (simp add: valid_config_def)
  from chunk_loop_ok [OF this] False show ?thesis by (simp add: chunk_def)
qed

lemma chunk_loop_total:
  assumes "0 < chunk_size self"
  shows "\<exists>r. chunk_loop self text chunks start index = Some r"
  using chunk_loop_rule [where I = "\<lambda>_ _ _. True" and Q = "\<lambda>_. True", OF assms] by simp

section \<open>The fixed-size chunker: claims\<close>

text \<open>
  Claim C1. Let the configuration be valid and let the tentative end
  \<open>end0 = min(start + chunk_size, len(text))\<close> be strictly below \<open>len(text)\<close>. The
  separators are tried in the order \<open>". "\<close>, \<open>".\n"\<close>, \<open>"\n\n"\<close>, \<open>"\n"\<close>, \<open>" "\<close>, and the
  end of the chunk is what \<open>find_break_point\<close> returns. For the first separator in that
  order whose last occurrence in the window \<open>text[start:end0]\<close> has an offset strictly
  above \<open>chunk_size // 2\<close>, the end is \<open>start + offset + len(separator)\<close>; when no
  separator has such a last occurrence, the end stays \<open>end0\<close>.
\<close>

theorem find_break_point_priority:
  assumes "valid_config self"
    and "end0 = min (start + chunk_size self) (len text)"
    and "end0 < len text"
  shows "SENTENCE_SEPARATORS =
           [''. '', [CHR ''.'', CHR 0x0A], [CHR 0x0A, CHR 0x0A], [CHR 0x0A], '' ''] \<and>
         window_end self text start = find_break_point self text start end0 \<and>
         (\<forall>k off. k < length SENTENCE_SEPARATORS \<and>
            is_last_occurrence (slice text start end0) (SENTENCE_SEPARATORS ! k) off \<and>
            chunk_size self div 2 < int off \<and>
            (\<forall>k' < k. \<forall>off'.
               is_last_occurrence (slice text start end0) (SENTENCE_SEPARATORS ! k') off' \<longrightarrow>
               \<not> chunk_size self div 2 < int off')
          \<longrightarrow> find_break_point self text start end0 =
                start + int off + len (SENTENCE_SEPARATORS ! k)) \<and>
         ((\<forall>sep \<in> set SENTENCE_SEPARATORS. \<forall>off.
            is_last_occurrence (slice text start end0) sep off \<longrightarrow>
            \<not> chunk_size self div 2 < int off)
          \<longrightarrow> find_break_point self text start end0 = end0)"
proof -
  let ?w = "slice text start end0"
  let ?m = "chunk_size self div 2"
  from assms(1) have m: "0 \<le> ?m" by (simp add: valid_config_def)
  have none: "\<not> ?m < rfind ?w sep"
    if "\<forall>off. is_last_occurrence ?w sep off \<longrightarrow> \<not> ?m < int off" for sep
  proof
    assume a: "?m < rfind ?w sep"
    with m have "0 \<le> rfind ?w sep" by linarith
    then obtain n where n: "rfind ?w sep = int n" using nonneg_int_cases by blast
    then have "is_last_occurrence ?w sep n"
      by (simp only: is_last_occurrence_rfind)
    with that have "\<not> ?m < int n" by blast
    with a n show False by simp
  qed
  have seps: "SENTENCE_SEPARATORS =
           [''. '', [CHR ''.'', CHR 0x0A], [CHR 0x0A, CHR 0x0A], [CHR 0x0A], '' '']"
    by (simp add: SENTENCE_SEPARATORS_def)
  have we: "window_end self text start = find_break_point self text start end0"
    by (simp only: window_end_def Let_def assms(2) [symmetric] assms(3) if_True)
  have first: "\<forall>k off. k < length SENTENCE_SEPARATORS \<and>
            is_last_occurrence ?w (SENTENCE_SEPARATORS ! k) off \<and> ?m < int off \<and>
            (\<forall>k' < k. \<forall>off'. is_last_occurrence ?w (SENTENCE_SEPARATORS ! k') off' \<longrightarrow>
               \<not> ?m < int off')
          \<longrightarrow> find_break_point self text start end0 =
                start + int off + len (SENTENCE_SEPARATORS ! k)"
  proof (intro allI impI, elim conjE)
    fix k off
    assume k: "k < length SENTENCE_SEPARATORS"
      and occ: "is_last_occurrence ?w (SENTENCE_SEPARATORS ! k) off"
      and off: "?m < int off"
      and earlier: "\<forall>k' < k. \<forall>off'.
           is_last_occurrence ?w (SENTENCE_SEPARATORS ! k') off' \<longrightarrow> \<not> ?m < int off'"
    from occ have r: "rfind ?w (SENTENCE_SEPARATORS ! k) = int off"
      by (simp only: is_last_occurrence_rfind)
    from earlier none have "\<forall>k' < k. \<not> ?m < rfind ?w (SENTENCE_SEPARATORS ! k')" by blast
    from find_break_point_loop_first [OF k _ this, of start end0] r off
    show "find_break_point self text start end0 =
            start + int off + len (SENTENCE_SEPARATORS ! k)"
      by (simp add: find_break_point_def Let_def)
  qed
  have last: "(\<forall>sep \<in> set SENTENCE_SEPARATORS. \<forall>off.
            is_last_occurrence ?w sep off \<longrightarrow> \<not> ?m < int off)
          \<longrightarrow> find_break_point self text start end0 = end0"
  proof
    assume "\<forall>sep \<in> set SENTENCE_SEPARATORS. \<forall>off.
              is_last_occurrence ?w sep off \<longrightarrow> \<not> ?m < int off"
    with none have "\<forall>sep \<in> set SENTENCE_SEPARATORS. \<not> ?m < rfind ?w sep" by blast
    from find_break_point_loop_none [OF this]
    show "find_break_point self text start end0 = end0"
      by (simp add: find_break_point_def Let_def)
  qed
  from seps we first last show ?thesis by (intro conjI)
qed

theorem find_break_point_priority_witness:
  "valid_config example_chunker \<and>
   (10::int) = min (0 + chunk_size example_chunker) (len ''aaaaaa. b bbbbbbb'') \<and>
   (10::int) < len ''aaaaaa. b bbbbbbb'' \<and>
   is_last_occurrence (slice ''aaaaaa. b bbbbbbb'' 0 10) (SENTENCE_SEPARATORS ! 0) 6 \<and>
   is_last_occurrence (slice ''aaaaaa. b bbbbbbb'' 0 10) (SENTENCE_SEPARATORS ! 4) 9 \<and>
   find_break_point example_chunker ''aaaaaa. b bbbbbbb'' 0 10 = 8"
proof -
  let ?t = "''aaaaaa. b bbbbbbb''"
  have v: "valid_config example_chunker"
    by (simp add: valid_config_def example_chunker_def)
  have e: "(10::int) = min (0 + chunk_size example_chunker) (len ?t)"
    by (simp add: example_chunker_def len_def)
  have l: "(10::int) < len ?t" by (simp add: len_def)
  have w: "slice ?t 0 10 = ''aaaaaa. b ''" by (simp add: slice_def len_def)
  have r0: "rfind ''aaaaaa. b '' ''. '' = 6" by code_simp
  have r4: "rfind ''aaaaaa. b '' '' '' = 9" by code_simp
  have o0: "is_last_occurrence (slice ?t 0 10) (SENTENCE_SEPARATORS ! 0) 6"
    using r0 by (simp add: is_last_occurrence_rfind w SENTENCE_SEPARATORS_def)
  have o4: "is_last_occurrence (slice ?t 0 10) (SENTENCE_SEPARATORS ! 4) 9"
    using r4 by (simp add: is_last_occurrence_rfind w SENTENCE_SEPARATORS_def)
  from find_break_point_priority [OF v e l]
  have "\<forall>k off. k < length SENTENCE_SEPARATORS \<and>
            is_last_occurrence (slice ?t 0 10) (SENTENCE_SEPARATORS ! k) off \<and>
            chunk_size example_chunker div 2 < int off \<and>
            (\<forall>k' < k. \<forall>off'.
               is_last_occurrence (slice ?t 0 10) (SENTENCE_SEPARATORS ! k') off' \<longrightarrow>
               \<not> chunk_size example_chunker div 2 < int off')
          \<longrightarrow> find_break_point example_chunker ?t 0 10 =
                0 + int off + len (SENTENCE_SEPARATORS ! k)"
    by blast
  from this [rule_format, of 0 6] o0
  have "find_break_point example_chunker ?t 0 10 = 8"
    by (simp add: example_chunker_def SENTENCE_SEPARATORS_def len_def)
  with v e l o0 o4 show ?thesis by (intro conjI)
qed

text \<open>
  Claim C2. For a valid configuration \<open>chunk\<close> returns, every chunk it returns has
  \<open>0 \<le> start < end \<le> len(text)\<close>, the starts of consecutive chunks strictly increase, and
  the indices are \<open>0, 1, ..., n - 1\<close> in the order of emission.
\<close>

theorem chunk_positions_and_indices:
  assumes "valid_config self"
  shows "\<exists>r. chunk self text = Some r \<and>
           (\<forall>c \<in> set r. 0 \<le> c_start c \<and> c_start c < c_end c \<and> c_end c \<le> len text) \<and>
           (\<forall>k. Suc k < length r \<longrightarrow> c_start (r ! k) < c_start (r ! Suc k)) \<and>
           map c_index r = map int [0..<length r]"
proof -
  from chunk_ok_result [OF assms] obtain r
    where r: "chunk self text = Some r" and ok: "chunks_ok self text r" by blast
  from ok have "\<forall>c \<in> set r. 0 \<le> c_start c \<and> c_start c < c_end c \<and> c_end c \<le> len text"
    unfolding chunks_ok_def chunk_ok_def by blast
  moreover have "\<forall>k. Suc k < length r \<longrightarrow> c_start (r ! k) < c_start (r ! Suc k)"
  proof (intro allI impI)
    fix k assume k: "Suc k < length r"
    from ok have "sorted_wrt (<) (map c_start r)" by (simp add: chunks_ok_def)
    from sorted_wrt_nth_less [OF this, of k "Suc k"] k
    show "c_start (r ! k) < c_start (r ! Suc k)" by simp
  qed
  moreover from ok have "map c_index r = map int [0..<length r]" by (simp add: chunks_ok_def)
  ultimately show ?thesis using r by blast
qed

theorem chunk_positions_and_indices_witness:
  "valid_config example_chunker \<and>
   chunk example_chunker ''aaaa       bbbbbbbbbbbbbb'' =
     Some [\<lparr>c_text = ''aaaa'', c_start = 0, c_end = 10, c_index = 0\<rparr>,
           \<lparr>c_text = ''bbbbbb'', c_start = 7, c_end = 17, c_index = 1\<rparr>,
           \<lparr>c_text = ''bbbbbbbbbb'', c_start = 14, c_end = 24, c_index = 2\<rparr>,
           \<lparr>c_text = ''bbbb'', c_start = 21, c_end = 25, c_index = 3\<rparr>] \<and>
   (\<exists>r. chunk example_chunker ''aaaa       bbbbbbbbbbbbbb'' = Some r \<and>
      (\<forall>c \<in> set r. 0 \<le> c_start c \<and> c_start c < c_end c \<and>
         c_end c \<le> len ''aaaa       bbbbbbbbbbbbbb'') \<and>
      (\<forall>k. Suc k < length r \<longrightarrow> c_start (r ! k) < c_start (r ! Suc k)) \<and>
      map c_index r = map int [0..<length r])"
proof -
  have v: "valid_config example_chunker"
    by (simp add: valid_config_def example_chunker_def)
  have "chunk example_chunker ''aaaa       bbbbbbbbbbbbbb'' =
     Some [\<lparr>c_text = ''aaaa'', c_start = 0, c_end = 10, c_index = 0\<rparr>,
           \<lparr>c_text = ''bbbbbb'', c_start = 7, c_end = 17, c_index = 1\<rparr>,
           \<lparr>c_text = ''bbbbbbbbbb'', c_start = 14, c_end = 24, c_index = 2\<rparr>,
           \<lparr>c_text = ''bbbb'', c_start = 21, c_end = 25, c_index = 3\<rparr>]"
    by code_simp
  with v chunk_positions_and_indices [OF v, of "''aaaa       bbbbbbbbbbbbbb''"]
  show ?thesis by (intro conjI)
qed

text \<open>
  Claim C3. For a valid configuration the text of every returned chunk is the stripped
  window \<open>text[start:end]\<close> of the recorded bounds, it is not empty, and it has at most
  \<open>chunk_size\<close> characters. The recorded bounds are those of the window before
  stripping: \<open>start\<close> is the cursor of the pass and \<open>end\<close> is the end of the window the
  pass computed from it, so the stripped text is at most as long as \<open>end - start\<close> and
  may be shorter.
\<close>

theorem chunk_text_is_stripped_window:
  assumes "valid_config self"
  shows "\<exists>r. chunk self text = Some r \<and>
           (\<forall>c \<in> set r. c_text c = strip (slice text (c_start c) (c_end c)) \<and>
                          c_text c \<noteq> [] \<and> len (c_text c) \<le> chunk_size self \<and>
                          c_end c = window_end self text (c_start c) \<and>
                          len (c_text c) \<le> c_end c - c_start c)"
proof -
  from chunk_ok_result [OF assms] obtain r
    where r: "chunk self text = Some r" and ok: "chunks_ok self text r" by blast
  from ok have "\<forall>c \<in> set r. c_text c = strip (slice text (c_start c) (c_end c)) \<and>
                  c_text c \<noteq> [] \<and> len (c_text c) \<le> chunk_size self \<and>
                  c_end c = window_end self text (c_start c) \<and>
                  len (c_text c) \<le> c_end c - c_start c"
    unfolding chunks_ok_def chunk_ok_def by blast
  with r show ?thesis by blast
qed

theorem chunk_text_is_stripped_window_witness:
  "valid_config example_chunker \<and>
   chunk example_chunker ''aaaa       bbbbbbbbbbb'' =
     Some [\<lparr>c_text = ''aaaa'', c_start = 0, c_end = 10, c_index = 0\<rparr>,
           \<lparr>c_text = ''bbbbbb'', c_start = 7, c_end = 17, c_index = 1\<rparr>,
           \<lparr>c_text = ''bbbbbbbb'', c_start = 14, c_end = 22, c_index = 2\<rparr>] \<and>
   window_end example_chunker ''aaaa       bbbbbbbbbbb'' 0 = 10 \<and>
   strip (slice ''aaaa       bbbbbbbbbbb'' 0 10) = ''aaaa'' \<and>
   (\<exists>r. chunk example_chunker ''aaaa       bbbbbbbbbbb'' = Some r \<and>
      (\<forall>c \<in> set r. c_text c = strip (slice ''aaaa       bbbbbbbbbbb'' (c_start c) (c_end c)) \<and>
                     c_text c \<noteq> [] \<and> len (c_text c) \<le> chunk_size example_chunker \<and>
                     c_end c = window_end example_chunker ''aaaa       bbbbbbbbbbb'' (c_start c) \<and>
                     len (c_text c) \<le> c_end c - c_start c))"
proof -
  have v: "valid_config example_chunker"
    by (simp add: valid_config_def example_chunker_def)
  have e: "chunk example_chunker ''aaaa       bbbbbbbbbbb'' =
     Some [\<lparr>c_text = ''aaaa'', c_start = 0, c_end = 10, c_index = 0\<rparr>,
           \<lparr>c_text = ''bbbbbb'', c_start = 7, c_end = 17, c_index = 1\<rparr>,
           \<lparr>c_text = ''bbbbbbbb'', c_start = 14, c_end = 22, c_index = 2\<rparr>]"
    by code_simp
  have w: "window_end example_chunker ''aaaa       bbbbbbbbbbb'' 0 = 10" by code_simp
  have t: "strip (slice ''aaaa       bbbbbbbbbbb'' 0 10) = ''aaaa''" by code_simp
  from v e w t chunk_text_is_stripped_window [OF v, of "''aaaa       bbbbbbbbbbb''"]
  show ?thesis by (intro conjI)
qed

lemma chunk_blank: "text = [] \<or> (\<forall>c \<in> set text. isspace c) \<Longrightarrow> chunk self text = Some []"
  using strip_all_space [of "text"] by (auto simp: chunk_def)

text \<open>
  Claim C4. On the empty string and on a string of whitespace only, \<open>chunk\<close> returns the
  empty list; this holds for every configuration, so for every valid one.
\<close>

theorem chunk_empty_or_whitespace:
  "chunk self [] = Some [] \<and>
   ((\<forall>c \<in> set text. isspace c) \<longrightarrow> chunk self text = Some [])"
  using chunk_blank [of "[]" self] chunk_blank [of "text" self] by simp

theorem chunk_empty_or_whitespace_witness:
  "list_all isspace whitespace_example \<and>
   chunk example_chunker whitespace_example = Some [] \<and>
   chunk example_chunker [] = Some []"
proof -
  have w: "\<forall>c \<in> set whitespace_example. isspace c"
    by (simp add: whitespace_example_def isspace_def)
  with chunk_empty_or_whitespace [of example_chunker whitespace_example]
  show ?thesis by (simp add: list_all_iff)
qed

lemma init_ok_valid:
  "FixedSizeChunker_init cs ov = Inr self \<Longrightarrow>
     valid_config self \<and> chunk_size self = cs \<and> overlap self = ov"
  by (auto simp: FixedSizeChunker_init_def valid_config_def split: if_splits)

text \<open>
  Claim C5. The constructor fails, with the \<open>ValueError\<close> that the specification calls
  InvalidConfiguration, when \<open>chunk_size \<le> 0\<close>, \<open>overlap < 0\<close> or
  \<open>overlap \<ge> chunk_size\<close>, and otherwise gives the chunker with these two fields; on a
  chunker that the constructor gave, \<open>chunk\<close> returns a list for every text, so it
  raises nothing.
\<close>

theorem init_rejects_invalid_configuration:
  "((cs \<le> 0 \<or> ov < 0 \<or> ov \<ge> cs) \<longrightarrow>
      (\<exists>msg. FixedSizeChunker_init cs ov = Inl (ValueError msg))) \<and>
   (\<not> (cs \<le> 0 \<or> ov < 0 \<or> ov \<ge> cs) \<longrightarrow>
      FixedSizeChunker_init cs ov = Inr \<lparr>chunk_size = cs, overlap = ov\<rparr>) \<and>
   (\<forall>self. FixedSizeChunker_init cs ov = Inr self \<longrightarrow>
      chunk_size self = cs \<and> overlap self = ov \<and> (\<forall>text. \<exists>r. chunk self text = Some r))"
proof (intro conjI allI impI)
  assume "cs \<le> 0 \<or> ov < 0 \<or> ov \<ge> cs"
  then show "\<exists>msg. FixedSizeChunker_init cs ov = Inl (ValueError msg)"
    by (auto simp: FixedSizeChunker_init_def)
next
  assume "\<not> (cs \<le> 0 \<or> ov < 0 \<or> ov \<ge> cs)"
  then show "FixedSizeChunker_init cs ov = Inr \<lparr>chunk_size = cs, overlap = ov\<rparr>"
    by (simp add: FixedSizeChunker_init_def)
next
  fix self assume a: "FixedSizeChunker_init cs ov = Inr self"
  from init_ok_valid [OF a] show "chunk_size self = cs" by simp
next
  fix self assume a: "FixedSizeChunker_init cs ov = Inr self"
  from init_ok_valid [OF a] show "overlap self = ov" by simp
next
  fix self t assume a: "FixedSizeChunker_init cs ov = Inr self"
  from init_ok_valid [OF a] have "valid_config self" by simp
  from chunk_ok_result [OF this] show "\<exists>r. chunk self t = Some r" by blast
qed

theorem init_rejects_invalid_configuration_witness:
  "FixedSizeChunker_init 0 10 = Inl (ValueError ''chunk_size must be positive'') \<and>
   FixedSizeChunker_init (- 1) 10 = Inl (ValueError ''chunk_size must be positive'') \<and>
   FixedSizeChunker_init 100 (- 1) = Inl (ValueError ''overlap must be non-negative'') \<and>
   FixedSizeChunker_init 100 100 = Inl (ValueError ''overlap must be less than chunk_size'') \<and>
   FixedSizeChunker_init 100 20 = Inr \<lparr>chunk_size = 100, overlap = 20\<rparr> \<and>
   (\<exists>r. chunk \<lparr>chunk_size = 100, overlap = 20\<rparr> ''This is a short text.'' = Some r)"
proof -
  have i: "FixedSizeChunker_init 100 20 = Inr \<lparr>chunk_size = 100, overlap = 20\<rparr>"
    by (simp add: FixedSizeChunker_init_def)
  from init_rejects_invalid_configuration [of 100 20] i
  have "\<exists>r. chunk \<lparr>chunk_size = 100, overlap = 20\<rparr> ''This is a short text.'' = Some r"
    by blast
  with i show ?thesis by (simp add: FixedSizeChunker_init_def)
qed

text \<open>
  Claim C10. For a valid configuration \<open>chunk\<close> returns, and so does the loop from any
  state. In every pass of the body that goes on, the end of the window lies beyond the
  cursor, the next cursor is that end when \<open>end - overlap\<close> would not advance past the
  cursor and \<open>end - overlap\<close> otherwise, and the next cursor is strictly greater than the
  cursor.
\<close>

theorem chunk_terminates:
  assumes "valid_config self"
  shows "(\<exists>r. chunk self text = Some r) \<and>
         (\<forall>chunks start index. \<exists>r. chunk_loop self text chunks start index = Some r) \<and>
         (\<forall>chunks start index chunks' start' index'.
            start < len text \<and>
            loop_body self text chunks start index = Continue chunks' start' index' \<longrightarrow>
              start < window_end self text start \<and>
              start' = (if window_end self text start - overlap self \<le> start
                        then window_end self text start
                        else window_end self text start - overlap self) \<and>
              start < start')"
proof (intro conjI allI impI)
  from chunk_ok_result [OF assms] show "\<exists>r. chunk self text = Some r" by blast
next
  fix chunks start index
  from assms have "0 < chunk_size self" by (simp add: valid_config_def)
  from chunk_loop_total [OF this]
  show "\<exists>r. chunk_loop self text chunks start index = Some r" .
next
  fix chunks start index chunks' start' index'
  assume a: "start < len text \<and>
    loop_body self text chunks start index = Continue chunks' start' index'"
  from assms have cs: "0 < chunk_size self" by (simp add: valid_config_def)
  from a have lt: "start < len text" by simp
  from a have s': "start' = next_start self text start"
    by (simp add: loop_body_unfold split: if_splits)
  from window_end_gt [OF cs lt] show "start < window_end self text start" .
  from s' show "start' = (if window_end self text start - overlap self \<le> start
                        then window_end self text start
                        else window_end self text start - overlap self)"
    by (simp add: next_start_def Let_def)
  from next_start_gt [OF cs lt] s' show "start < start'" by simp
qed

theorem chunk_terminates_witness:
  "valid_config \<lparr>chunk_size = 10, overlap = 9\<rparr> \<and>
   (0::int) < len ''aaaaaa. bbbbbbbbbbbbbb'' \<and>
   loop_body \<lparr>chunk_size = 10, overlap = 9\<rparr> ''aaaaaa. bbbbbbbbbbbbbb'' [] 0 0 =
     Continue [\<lparr>c_text = ''aaaaaa.'', c_start = 0, c_end = 8, c_index = 0\<rparr>] 8 1 \<and>
   window_end \<lparr>chunk_size = 10, overlap = 9\<rparr> ''aaaaaa. bbbbbbbbbbbbbb'' 0 = 8 \<and>
   (0::int) < 8 \<and>
   (\<exists>r. chunk \<lparr>chunk_size = 10, overlap = 9\<rparr> ''aaaaaa. bbbbbbbbbbbbbb'' = Some r)"
proof -
  let ?c = "\<lparr>chunk_size = 10, overlap = 9\<rparr>"
  let ?t = "''aaaaaa. bbbbbbbbbbbbbb''"
  have v: "valid_config ?c" by (simp add: valid_config_def)
  have l: "(0::int) < len ?t" by (simp add: len_def)
  have b: "loop_body ?c ?t [] 0 0 =
     Continue [\<lparr>c_text = ''aaaaaa.'', c_start = 0, c_end = 8, c_index = 0\<rparr>] 8 1"
    by code_simp
  have w: "window_end ?c ?t 0 = 8" by code_simp
  note t = chunk_terminates [OF v, of ?t]
  from t have "\<exists>r. chunk ?c ?t = Some r" by blast
  moreover from t l b have "(0::int) < 8" by blast
  ultimately show ?thesis using v l b w by (intro conjI)
qed

section \<open>The memory service: claims\<close>

lemma map_of_set_if_truthy:
  "map_of (set_if_truthy k v d) = map_of d ++ identity_entry k v"
  by (auto simp: set_if_truthy_def identity_entry_def update_conv' split: option.splits)

lemma map_of_fold_update:
  "distinct (map fst b) \<Longrightarrow>
   map_of (fold (\<lambda>(k, v) d. AList.update k v d) b a) = map_of a ++ map_of b"
proof (induction b arbitrary: a)
  case Nil
  show ?case by simp
next
  case (Cons p b)
  obtain k v where p: "p = (k, v)" by (cases p)
  from Cons.prems p have d: "distinct (map fst b)" and k: "k \<notin> fst ` set b" by auto
  from k have n: "map_of b k = None" by (simp add: map_of_eq_None_iff)
  have e: "map_of (AList.update k v a) ++ map_of b = map_of a ++ map_of ((k, v) # b)"
  proof
    fix x show "(map_of (AList.update k v a) ++ map_of b) x = (map_of a ++ map_of ((k, v) # b)) x"
      using n by (cases "x = k") (auto simp: update_conv' map_add_def split: option.splits)
  qed
  have f: "fold (\<lambda>(k, v) d. AList.update k v d) (p # b) a =
           fold (\<lambda>(k, v) d. AList.update k v d) b (AList.update k v a)"
    by (simp add: p)
  have "map_of (fold (\<lambda>(k, v) d. AList.update k v d) (p # b) a) =
        map_of (AList.update k v a) ++ map_of b"
    by (simp only: f Cons.IH [OF d])
  also note e
  finally show ?case by (simp only: p)
qed

lemma map_of_dict_merge:
  "distinct (map fst b) \<Longrightarrow> map_of (dict_merge a b) = map_of a ++ map_of b"
  by (simp add: dict_merge_def map_of_fold_update)

lemma base_metadata_map:
  "map_of (set_if_truthy ''agent_name'' agent_name
            (set_if_truthy ''session_id'' session_id
              (set_if_truthy ''user_id'' user_id
                [(''timestamp'', PStr (utc_now_isoformat rt)),
                 (''content_hash'', PStr (take 16 (sha256_hexdigest rt content0)))])))
   = spec_base_metadata rt content0 user_id session_id agent_name"
  by (simp add: map_of_set_if_truthy spec_base_metadata_def fun_eq_iff map_add_def
           split: option.splits)

lemma chunk_metadata_map:
  assumes "distinct (map fst md)"
  shows "map_of (dict_merge (dict_merge base md)
                  [(''chunk_index'', PInt (c_index c)), (''chunk_start'', PInt (c_start c)),
                   (''chunk_end'', PInt (c_end c)), (''total_chunks'', PInt n)])
         = map_of base ++ map_of md ++ spec_chunk_fields c n"
proof -
  have "map_of [(''chunk_index'', PInt (c_index c)), (''chunk_start'', PInt (c_start c)),
                (''chunk_end'', PInt (c_end c)), (''total_chunks'', PInt n)]
        = spec_chunk_fields c n"
    by (auto simp: spec_chunk_fields_def fun_eq_iff)
  then show ?thesis using assms by (simp add: map_of_dict_merge)
qed

lemma add_memory_no_chunks:
  "chunker_chunk self tr content0 = Inr [] \<Longrightarrow>
   add_memory rt self content0 metadata0 user_id session_id agent_name tr =
     (Inr \<lparr>memory_ids = [], chunks_created = 0\<rparr>, tr @ [Chunker_chunk content0])"
  by (simp add: add_memory_def Let_def)


text \<open>
  Claim C6. When the chunker gives no chunk for the content, \<open>add_memory\<close> returns the
  response with no memory ids and \<open>chunks_created = 0\<close>, not an error, and the only call
  it has made is the one to the chunker: neither \<open>embed\<close> nor \<open>add\<close> is in the trace. In
  particular this is so for empty and whitespace-only content when the service's chunker
  answers as a fixed-size chunker does.
\<close>

theorem add_memory_without_chunks:
  "(chunker_chunk self tr content0 = Inr [] \<longrightarrow>
      add_memory rt self content0 metadata0 user_id session_id agent_name tr =
        (Inr \<lparr>memory_ids = [], chunks_created = 0\<rparr>, tr @ [Chunker_chunk content0])) \<and>
   ((content0 = [] \<or> (\<forall>c \<in> set content0. isspace c)) \<and>
    (\<forall>r. chunk fsc content0 = Some r \<longrightarrow> chunker_chunk self tr content0 = Inr r) \<longrightarrow>
      add_memory rt self content0 metadata0 user_id session_id agent_name tr =
        (Inr \<lparr>memory_ids = [], chunks_created = 0\<rparr>, tr @ [Chunker_chunk content0]))"
proof (intro conjI impI)
  assume "chunker_chunk self tr content0 = Inr []"
  then show "add_memory rt self content0 metadata0 user_id session_id agent_name tr =
        (Inr \<lparr>memory_ids = [], chunks_created = 0\<rparr>, tr @ [Chunker_chunk content0])"
    by (rule add_memory_no_chunks)
next
  assume a: "(content0 = [] \<or> (\<forall>c \<in> set content0. isspace c)) \<and>
    (\<forall>r. chunk fsc content0 = Some r \<longrightarrow> chunker_chunk self tr content0 = Inr r)"
  then have "chunk fsc content0 = Some []" using chunk_blank by blast
  with a have "chunker_chunk self tr content0 = Inr []" by blast
  then show "add_memory rt self content0 metadata0 user_id session_id agent_name tr =
        (Inr \<lparr>memory_ids = [], chunks_created = 0\<rparr>, tr @ [Chunker_chunk content0])"
    by (rule add_memory_no_chunks)
qed

theorem add_memory_without_chunks_witness:
  "chunker_chunk example_service [] [] = Inr [] \<and>
   add_memory example_runtime example_service [] None None None None [] =
     (Inr \<lparr>memory_ids = [], chunks_created = 0\<rparr>, [Chunker_chunk []]) \<and>
   list_all isspace whitespace_example \<and>
   add_memory example_runtime example_service whitespace_example None (Some ''u1'') None None [] =
     (Inr \<lparr>memory_ids = [], chunks_created = 0\<rparr>, [Chunker_chunk whitespace_example])"
proof -
  have c: "chunker_chunk example_service [] [] = Inr []"
    by (simp add: example_service_def chunk_def)
  have w: "\<forall>c \<in> set whitespace_example. isspace c"
    by (simp add: whitespace_example_def isspace_def)
  have k: "\<forall>r. chunk \<lparr>chunk_size = 1000, overlap = 200\<rparr> whitespace_example = Some r \<longrightarrow>
             chunker_chunk example_service [] whitespace_example = Inr r"
    by (simp add: example_service_def)
  from add_memory_without_chunks
         [of example_service "[]" "[]" example_runtime None None None None] c
  have 1: "add_memory example_runtime example_service [] None None None None [] =
     (Inr \<lparr>memory_ids = [], chunks_created = 0\<rparr>, [Chunker_chunk []])"
    by simp
  from add_memory_without_chunks
         [of example_service "[]" whitespace_example example_runtime None "Some ''u1''" None None
             "\<lparr>chunk_size = 1000, overlap = 200\<rparr>"] w k
  have 2: "add_memory example_runtime example_service whitespace_example None (Some ''u1'') None None [] =
     (Inr \<lparr>memory_ids = [], chunks_created = 0\<rparr>, [Chunker_chunk whitespace_example])"
    by simp
  from w have "list_all isspace whitespace_example" by (simp add: list_all_iff)
  with c 1 2 show ?thesis by (intro conjI)
qed

text \<open>
  Claim C7. When the chunker gives \<open>n \<ge> 1\<close> chunks (and the embedding succeeds, so that
  the store is reached), the store receives one metadata dictionary per chunk, in order,
  and the dictionary of a chunk is, as a map, the base metadata overridden by the
  caller's metadata overridden by the four chunk fields of that chunk and \<open>n\<close>. The
  content hash of the base metadata is the first 16 characters of the SHA-256 hex digest
  of the whole content; the stored \<open>content_hash\<close> is the same for every chunk, and it is
  that hash unless the caller's metadata has a key \<open>content_hash\<close> of its own. The
  caller's metadata is a dictionary: each key occurs once.
\<close>

theorem add_memory_chunk_metadata:
  assumes ch: "chunker_chunk self tr content0 = Inr chunks" and ne: "chunks \<noteq> []"
    and em: "embeddings_embed self (tr @ [Chunker_chunk content0]) (map c_text chunks) = Inr vectors"
    and di: "distinct (map fst (case metadata0 of None \<Rightarrow> [] | Some m \<Rightarrow> m))"
  shows "\<exists>metas.
           snd (add_memory rt self content0 metadata0 user_id session_id agent_name tr) =
             tr @ [Chunker_chunk content0, Embeddings_embed (map c_text chunks),
                   Store_add vectors (map c_text chunks) metas] \<and>
           length metas = length chunks \<and>
           (\<forall>i < length chunks.
              map_of (metas ! i) =
                spec_base_metadata rt content0 user_id session_id agent_name
                ++ map_of (case metadata0 of None \<Rightarrow> [] | Some m \<Rightarrow> m)
                ++ spec_chunk_fields (chunks ! i) (len chunks) \<and>
              map_of (metas ! i) ''content_hash'' = map_of (metas ! 0) ''content_hash'' \<and>
              (''content_hash'' \<notin> fst ` set (case metadata0 of None \<Rightarrow> [] | Some m \<Rightarrow> m) \<longrightarrow>
                 map_of (metas ! i) ''content_hash'' =
                   Some (PStr (take 16 (sha256_hexdigest rt content0)))))"
proof -
  let ?md = "case metadata0 of None \<Rightarrow> [] | Some m \<Rightarrow> m"
  let ?base = "set_if_truthy ''agent_name'' agent_name
            (set_if_truthy ''session_id'' session_id
              (set_if_truthy ''user_id'' user_id
                [(''timestamp'', PStr (utc_now_isoformat rt)),
                 (''content_hash'', PStr (take 16 (sha256_hexdigest rt content0)))]))"
  let ?meta = "\<lambda>c. dict_merge (dict_merge ?base ?md)
                  [(''chunk_index'', PInt (c_index c)), (''chunk_start'', PInt (c_start c)),
                   (''chunk_end'', PInt (c_end c)), (''total_chunks'', PInt (len chunks))]"
  let ?metas = "map ?meta chunks"
  let ?sb = "spec_base_metadata rt content0 user_id session_id agent_name"
  have tr: "snd (add_memory rt self content0 metadata0 user_id session_id agent_name tr) =
             tr @ [Chunker_chunk content0, Embeddings_embed (map c_text chunks),
                   Store_add vectors (map c_text chunks) ?metas]"
    using ch ne em by (simp add: add_memory_def Let_def split: sum.splits)
  have m: "map_of (?meta c) = ?sb ++ map_of ?md ++ spec_chunk_fields c (len chunks)" for c
    using chunk_metadata_map [OF di, of ?base c "len chunks"]
    by (simp only: base_metadata_map)
  have h: "(?sb ++ map_of ?md ++ spec_chunk_fields c (len chunks)) ''content_hash'' =
           (?sb ++ map_of ?md) ''content_hash''" for c
    by (simp add: spec_chunk_fields_def map_add_def)
  have b: "?sb ''content_hash'' = Some (PStr (take 16 (sha256_hexdigest rt content0)))"
    by (simp add: spec_base_metadata_def identity_entry_def map_add_def split: option.splits)
  have every: "\<forall>i < length chunks.
          map_of (?metas ! i) = ?sb ++ map_of ?md ++ spec_chunk_fields (chunks ! i) (len chunks) \<and>
          map_of (?metas ! i) ''content_hash'' = map_of (?metas ! 0) ''content_hash'' \<and>
          (''content_hash'' \<notin> fst ` set ?md \<longrightarrow>
             map_of (?metas ! i) ''content_hash'' =
               Some (PStr (take 16 (sha256_hexdigest rt content0))))"
  proof (intro allI impI conjI)
    fix i assume i: "i < length chunks"
    then show "map_of (?metas ! i) =
                 ?sb ++ map_of ?md ++ spec_chunk_fields (chunks ! i) (len chunks)"
      by (simp only: nth_map m)
    from ne have z: "0 < length chunks" by simp
    from i z show "map_of (?metas ! i) ''content_hash'' = map_of (?metas ! 0) ''content_hash''"
      by (simp only: nth_map m h)
    assume "''content_hash'' \<notin> fst ` set ?md"
    then have "map_of ?md ''content_hash'' = None" by (simp add: map_of_eq_None_iff)
    then have "(?sb ++ map_of ?md) ''content_hash'' = ?sb ''content_hash''"
      by (simp add: map_add_def)
    with i b show "map_of (?metas ! i) ''content_hash'' =
                     Some (PStr (take 16 (sha256_hexdigest rt content0)))"
      by (simp only: nth_map m h)
  qed
  have l: "length ?metas = length chunks" by simp
  show ?thesis
    by (rule exI [of _ ?metas]) (intro conjI tr l every)
qed

theorem add_memory_chunk_metadata_witness:
  "chunker_chunk small_service [] example_chunked_content = Inr example_chunks \<and>
   example_chunks \<noteq> [] \<and>
   embeddings_embed small_service [Chunker_chunk example_chunked_content]
     (map c_text example_chunks) = Inr [ [7], [10], [4] ] \<and>
   distinct (map fst (case Some example_metadata of None \<Rightarrow> [] | Some m \<Rightarrow> m)) \<and>
   (\<exists>metas.
      snd (add_memory example_runtime small_service example_chunked_content
             (Some example_metadata) (Some ''u1'') None (Some []) []) =
        [] @ [Chunker_chunk example_chunked_content,
              Embeddings_embed (map c_text example_chunks),
              Store_add [ [7], [10], [4] ] (map c_text example_chunks) metas] \<and>
      length metas = length example_chunks \<and>
      map_of (metas ! 1) ''chunk_index'' = Some (PInt 1) \<and>
      map_of (metas ! 1) ''total_chunks'' = Some (PInt 3) \<and>
      map_of (metas ! 1) ''source'' = Some (PStr ''doc'') \<and>
      map_of (metas ! 1) ''user_id'' = Some (PStr ''u1'') \<and>
      map_of (metas ! 1) ''agent_name'' = None \<and>
      map_of (metas ! 1) ''content_hash'' = Some (PStr ''0123456789abcdef''))"
proof -
  have c: "chunker_chunk small_service [] example_chunked_content = Inr example_chunks"
    by code_simp
  have n: "example_chunks \<noteq> []" by (simp add: example_chunks_def)
  have e: "embeddings_embed small_service ([] @ [Chunker_chunk example_chunked_content])
     (map c_text example_chunks) = Inr [ [7], [10], [4] ]"
    by (simp add: small_service_def example_chunks_def)
  have d: "distinct (map fst (case Some example_metadata of None \<Rightarrow> [] | Some m \<Rightarrow> m))"
    by (simp add: example_metadata_def)
  from add_memory_chunk_metadata [OF c n e d, of example_runtime "Some ''u1''" None "Some []"]
  obtain metas where
    t: "snd (add_memory example_runtime small_service example_chunked_content
             (Some example_metadata) (Some ''u1'') None (Some []) []) =
        [] @ [Chunker_chunk example_chunked_content,
              Embeddings_embed (map c_text example_chunks),
              Store_add [ [7], [10], [4] ] (map c_text example_chunks) metas]"
    and l: "length metas = length example_chunks"
    and m: "\<forall>i < length example_chunks.
              map_of (metas ! i) =
                spec_base_metadata example_runtime example_chunked_content (Some ''u1'') None (Some [])
                ++ map_of (case Some example_metadata of None \<Rightarrow> [] | Some m \<Rightarrow> m)
                ++ spec_chunk_fields (example_chunks ! i) (len example_chunks)"
    by blast
  have "(1::nat) < length example_chunks" by (simp add: example_chunks_def)
  with m have m1: "map_of (metas ! 1) =
                spec_base_metadata example_runtime example_chunked_content (Some ''u1'') None (Some [])
                ++ map_of (case Some example_metadata of None \<Rightarrow> [] | Some m \<Rightarrow> m)
                ++ spec_chunk_fields (example_chunks ! 1) (len example_chunks)"
    by blast
  have v: "map_of (metas ! 1) ''chunk_index'' = Some (PInt 1)"
     "map_of (metas ! 1) ''total_chunks'' = Some (PInt 3)"
     "map_of (metas ! 1) ''source'' = Some (PStr ''doc'')"
     "map_of (metas ! 1) ''user_id'' = Some (PStr ''u1'')"
     "map_of (metas ! 1) ''agent_name'' = None"
     "map_of (metas ! 1) ''content_hash'' = Some (PStr ''0123456789abcdef'')"
    unfolding m1
    by (simp_all add: spec_base_metadata_def spec_chunk_fields_def identity_entry_def
          example_metadata_def example_chunks_def example_runtime_def len_def map_add_def)
  from e have e': "embeddings_embed small_service [Chunker_chunk example_chunked_content]
     (map c_text example_chunks) = Inr [ [7], [10], [4] ]" by simp
  from t l v have "\<exists>metas.
      snd (add_memory example_runtime small_service example_chunked_content
             (Some example_metadata) (Some ''u1'') None (Some []) []) =
        [] @ [Chunker_chunk example_chunked_content,
              Embeddings_embed (map c_text example_chunks),
              Store_add [ [7], [10], [4] ] (map c_text example_chunks) metas] \<and>
      length metas = length example_chunks \<and>
      map_of (metas ! 1) ''chunk_index'' = Some (PInt 1) \<and>
      map_of (metas ! 1) ''total_chunks'' = Some (PInt 3) \<and>
      map_of (metas ! 1) ''source'' = Some (PStr ''doc'') \<and>
      map_of (metas ! 1) ''user_id'' = Some (PStr ''u1'') \<and>
      map_of (metas ! 1) ''agent_name'' = None \<and>
      map_of (metas ! 1) ''content_hash'' = Some (PStr ''0123456789abcdef'')"
    by blast
  with c n e' d show ?thesis by (intro conjI)
qed








text \<open>
  Claim C9, as stated, adds an identity key whenever the identifier is not null. For a
  request whose \<open>user_id\<close> is the empty string and whose filters are empty, the claim's
  filters are \<open>{"user_id": ""}\<close>, while the service searches the store with no filters
  at all.
\<close>

theorem search_memory_filters_counterexample:
  "q_user_id example_request = Some [] \<and>
   snd (search_memory example_service example_request []) =
     [Embeddings_embed [''q''], Store_search [1] 10 None None] \<and>
   spec_search_filters example_request = Some [(''user_id'', PStr [])] \<and>
   Store_search [1] 10 (spec_search_filters example_request) None
     \<notin> set (snd (search_memory example_service example_request []))"
  by (simp add: search_memory_def example_service_def example_request_def
        spec_search_filters_def set_if_truthy_def Let_def)

lemma merged_filters_alist:
  "map_of (set_if_truthy ''agent_name'' (q_agent_name request)
            (set_if_truthy ''session_id'' (q_session_id request)
              (set_if_truthy ''user_id'' (q_user_id request) (q_filters request))))
   = merged_filters request"
  by (simp only: map_of_set_if_truthy merged_filters_def)

text \<open>
  Claim C9, as amended. An identity key is added to the filters only when the identifier
  is neither null nor the empty string (an empty identifier leaves the caller's filters
  as they are). After a successful embedding of the query, the store is searched once,
  with the first vector, \<open>top_k\<close>, the threshold, and the merged filters: \<open>None\<close> when
  the merged map is empty and otherwise a dictionary that is, as a map, the caller's
  filters overridden by the identity entries. When the store answers, the response holds
  one result per store result, in the store's order, with the content, metadata, score
  and id of each, and the query string of the request.
\<close>

theorem search_memory_filters_and_results:
  assumes em: "embeddings_embed self tr [q_query request] = Inr (v # vs)"
  shows "\<exists>arg.
           snd (search_memory self request tr) =
             tr @ [Embeddings_embed [q_query request],
                   Store_search v (q_top_k request) arg (q_score_threshold request)] \<and>
           (case arg of
              None \<Rightarrow> merged_filters request = Map.empty
            | Some d \<Rightarrow> map_of d = merged_filters request \<and> d \<noteq> []) \<and>
           (\<forall>rs. store_search self (tr @ [Embeddings_embed [q_query request]]) v
                   (q_top_k request) arg (q_score_threshold request) = Inr rs \<longrightarrow>
                 fst (search_memory self request tr) =
                   Inr \<lparr>results = map (\<lambda>r. \<lparr>content = r_content r, metadata = r_metadata r,
                                             score = r_score r, memory_id = r_id r\<rparr>) rs,
                        query = q_query request\<rparr>)"
proof -
  let ?f = "set_if_truthy ''agent_name'' (q_agent_name request)
            (set_if_truthy ''session_id'' (q_session_id request)
              (set_if_truthy ''user_id'' (q_user_id request) (q_filters request)))"
  let ?arg = "if ?f \<noteq> [] then Some ?f else None"
  have t: "snd (search_memory self request tr) =
             tr @ [Embeddings_embed [q_query request],
                   Store_search v (q_top_k request) ?arg (q_score_threshold request)]"
    using em by (simp add: search_memory_def Let_def split: sum.splits)
  have a: "case ?arg of
              None \<Rightarrow> merged_filters request = Map.empty
            | Some d \<Rightarrow> map_of d = merged_filters request \<and> d \<noteq> []"
  proof (cases "?f = []")
    case True
    then have "map_of ?f = Map.empty" by simp
    then have "merged_filters request = Map.empty" by (simp only: merged_filters_alist)
    with True show ?thesis by simp
  next
    case False
    with merged_filters_alist [of request] show ?thesis by simp
  qed
  have r: "\<forall>rs. store_search self (tr @ [Embeddings_embed [q_query request]]) v
                   (q_top_k request) ?arg (q_score_threshold request) = Inr rs \<longrightarrow>
                 fst (search_memory self request tr) =
                   Inr \<lparr>results = map (\<lambda>r. \<lparr>content = r_content r, metadata = r_metadata r,
                                             score = r_score r, memory_id = r_id r\<rparr>) rs,
                        query = q_query request\<rparr>"
    using em by (simp add: search_memory_def Let_def)
  show ?thesis by (rule exI [of _ ?arg]) (intro conjI t a r)
qed

theorem search_memory_filters_and_results_witness:
  "embeddings_embed search_service [] [q_query identified_request] = Inr ([1] # []) \<and>
   snd (search_memory search_service identified_request []) =
     [Embeddings_embed [''q''],
      Store_search [1] 10 (Some [(''user_id'', PStr ''u1''), (''session_id'', PStr ''s0'')]) None] \<and>
   fst (search_memory search_service identified_request []) =
     Inr \<lparr>results = [\<lparr>content = ''second'', metadata = [], score = 1, memory_id = ''m2''\<rparr>,
                     \<lparr>content = ''first'', metadata = [(''user_id'', PStr ''u1'')],
                       score = 0, memory_id = ''m1''\<rparr>],
          query = ''q''\<rparr> \<and>
   merged_filters identified_request ''user_id'' = Some (PStr ''u1'') \<and>
   merged_filters identified_request ''session_id'' = Some (PStr ''s0'') \<and>
   merged_filters identified_request ''agent_name'' = None"
proof -
  have e: "embeddings_embed search_service [] [q_query identified_request] = Inr ([1] # [])"
    by (simp add: search_service_def identified_request_def)
  from search_memory_filters_and_results [OF e]
  obtain arg where
    t: "snd (search_memory search_service identified_request []) =
          [] @ [Embeddings_embed [q_query identified_request],
                Store_search [1] (q_top_k identified_request) arg
                  (q_score_threshold identified_request)]"
    and r: "\<forall>rs. store_search search_service ([] @ [Embeddings_embed [q_query identified_request]]) [1]
                   (q_top_k identified_request) arg (q_score_threshold identified_request) = Inr rs \<longrightarrow>
                 fst (search_memory search_service identified_request []) =
                   Inr \<lparr>results = map (\<lambda>r. \<lparr>content = r_content r, metadata = r_metadata r,
                                             score = r_score r, memory_id = r_id r\<rparr>) rs,
                        query = q_query identified_request\<rparr>"
    by blast
  have s: "snd (search_memory search_service identified_request []) =
     [Embeddings_embed [''q''],
      Store_search [1] 10 (Some [(''user_id'', PStr ''u1''), (''session_id'', PStr ''s0'')]) None]"
    by (simp add: search_memory_def search_service_def identified_request_def
          set_if_truthy_def Let_def)
  have "store_search search_service ([] @ [Embeddings_embed [q_query identified_request]]) [1]
          (q_top_k identified_request) arg (q_score_threshold identified_request) =
        Inr [\<lparr>r_id = ''m2'', r_score = 1, r_content = ''second'', r_metadata = []\<rparr>,
             \<lparr>r_id = ''m1'', r_score = 0, r_content = ''first'',
               r_metadata = [(''user_id'', PStr ''u1'')]\<rparr>]"
    by (simp add: search_service_def)
  with r have f: "fst (search_memory search_service identified_request []) =
     Inr \<lparr>results = [\<lparr>content = ''second'', metadata = [], score = 1, memory_id = ''m2''\<rparr>,
                     \<lparr>content = ''first'', metadata = [(''user_id'', PStr ''u1'')],
                       score = 0, memory_id = ''m1''\<rparr>],
          query = ''q''\<rparr>"
    by (simp add: identified_request_def)
  have m: "merged_filters identified_request ''user_id'' = Some (PStr ''u1'')"
    "merged_filters identified_request ''session_id'' = Some (PStr ''s0'')"
    "merged_filters identified_request ''agent_name'' = None"
    by (simp_all add: merged_filters_def identified_request_def identity_entry_def map_add_def)
  from e s f m show ?thesis by (intro conjI)
qed

end
